theory Spec2Isabelle
  imports Main "HOL-Library.Word"
begin

section \<open>Replies, requests and the logging sink\<close>

text \<open>
  A hiredis \<^verbatim>\<open>redisReply\<close>: one constructor per \<^verbatim>\<open>REDIS_REPLY_*\<close> type tag. The
  \<^verbatim>\<open>integer\<close> member is a C \<^verbatim>\<open>long long\<close>, kept as its 64 bits. A
  \<^verbatim>\<open>redisReplyPtr\<close> may be null: \<open>None\<close>.
\<close>

datatype redisReply =
    ReplyString string
  | ReplyArray "redisReply list"
  | ReplyInteger "64 word"
  | ReplyNil
  | ReplyStatus string
  | ReplyError string

type_synonym redisReplyPtr = "redisReply option"

text \<open>
  A request as handed to the writer: the commands (argument vectors) its buffer encodes.
  The RESP encoding itself (\<^verbatim>\<open>redisFormatCommandArgv\<close>) is not modelled.
\<close>

type_synonym EncodedRequest = "string list list"

text \<open>
  Modelled from the spec: the logging sink (\<^verbatim>\<open>Logger.hh\<close> and the macro
  \<^verbatim>\<open>QCLIENT_LOG\<close> are not among the sources). A log record is the level and what
  the message reports; the logger is the list of records written so far.
\<close>

datatype LogLevel = kError | kWarn

datatype LogMessage =
    CouldNotParse redisReplyPtr
  | NewerThanServer string "64 word" "64 word"
  | WentOutOfDate string "64 word" "64 word"
  | BeingResilvered string "64 word" "64 word"

type_synonym Logger = "(LogLevel \<times> LogMessage) list"

datatype error = AssertionFailed | NullHandshake | NoSuchMember

section \<open>The writer thread and its request stager\<close>

text \<open>
  Modelled from the spec: the bodies of \<^verbatim>\<open>WriterThread\<close> (only the declarations of
  \<^verbatim>\<open>WriterThread.hh\<close> are among the sources). The stager is the FIFO queue of
  in-flight requests, each tagged with the future it will resolve (futures are numbered
  in the order of staging); \<open>resolved\<close> records, in order, which future was
  completed with which reply. A null reply (\<open>None\<close>) is the nil a cleared request
  resolves with.
\<close>

record WriterThread =
  active :: bool
  pending :: "(nat \<times> EncodedRequest) list"
  resolved :: "(nat \<times> redisReplyPtr) list"
  nextFuture :: nat

definition activate :: "WriterThread \<Rightarrow> WriterThread" where
  "activate w = w\<lparr>active := True\<rparr>"

definition deactivate :: "WriterThread \<Rightarrow> WriterThread" where
  "deactivate w = w\<lparr>active := False\<rparr>"

text \<open>
  Modelled from the spec: \<^verbatim>\<open>stage\<close> appends at the tail of the queue and returns the
  future of the new request.
\<close>

definition stage :: "EncodedRequest \<Rightarrow> WriterThread \<Rightarrow> nat \<times> WriterThread" where
  "stage req w =
     (nextFuture w,
      w\<lparr>pending := pending w @ [(nextFuture w, req)], nextFuture := Suc (nextFuture w)\<rparr>)"

text \<open>
  Modelled from the spec: \<^verbatim>\<open>satisfy\<close> pops the head of the queue and resolves it with
  the reply (FIFO completion). The spec does not say what a reply with nothing pending
  does; here it is dropped.
\<close>

definition satisfy :: "redisReply \<Rightarrow> WriterThread \<Rightarrow> WriterThread" where
  "satisfy rr w =
     (case pending w of
        [] \<Rightarrow> w
      | (f, req) # rest \<Rightarrow> w\<lparr>pending := rest, resolved := resolved w @ [(f, Some rr)]\<rparr>)"

text \<open>
  Modelled from the spec: \<^verbatim>\<open>clearPending\<close> satisfies every still-pending request with
  a nil reply.
\<close>

definition clearPending :: "WriterThread \<Rightarrow> WriterThread" where
  "clearPending w =
     w\<lparr>pending := [], resolved := resolved w @ map (\<lambda>(f, req). (f, None)) (pending w)\<rparr>"

section \<open>QClient\<close>

record Endpoint =
  host :: string
  port :: int

text \<open>The default-constructed endpoint, written \<^verbatim>\<open>{}\<close> in the source.\<close>

definition Endpoint_default :: Endpoint where
  "Endpoint_default = \<lparr>host = [], port = 0\<rparr>"

text \<open>
  The handshake plug-in (an abstract class in the source): the request it provides and
  its verdict on the response, as \<^verbatim>\<open>QClient.cc\<close> uses it (a truth value).
\<close>

record Handshake =
  provideHandshake :: "string list"
  validateResponse :: "redisReply \<Rightarrow> bool"

text \<open>
  The client. \<open>networkStream\<close> is the stream, known by the endpoint it was opened
  to and by whether it came up (\<^verbatim>\<open>ok()\<close>), or null; \<open>reader\<close> says whether a
  hiredis reader is allocated; \<open>intercepts\<close> is the static table of the class;
  \<open>available\<close> is the flag \<^verbatim>\<open>connectTCP\<close> clears.
\<close>

record QClient =
  nextMember :: nat
  members :: "Endpoint list"
  targetEndpoint :: Endpoint
  redirectedEndpoint :: Endpoint
  redirectionActive :: bool
  transparentRedirects :: bool
  networkStream :: "(Endpoint \<times> bool) option"
  reader :: bool
  handshake :: "Handshake option"
  handshakePending :: bool
  available :: bool
  writerThread :: WriterThread
  intercepts :: "(string \<times> int) \<rightharpoonup> (string \<times> int)"

definition addIntercept :: "string \<Rightarrow> int \<Rightarrow> string \<Rightarrow> int \<Rightarrow> QClient \<Rightarrow> QClient" where
  "addIntercept hostname p host2 port2 q =
     q\<lparr>intercepts := (intercepts q)((hostname, p) \<mapsto> (host2, port2))\<rparr>"

definition clearIntercepts :: "QClient \<Rightarrow> QClient" where
  "clearIntercepts q = q\<lparr>intercepts := Map.empty\<rparr>"

text \<open>\<^verbatim>\<open>execute\<close> of one command: the request is staged with the writer thread.\<close>

definition execute :: "string list \<Rightarrow> QClient \<Rightarrow> nat \<times> QClient" where
  "execute cmd q =
     (let (f, w) = stage [cmd] (writerThread q) in (f, q\<lparr>writerThread := w\<rparr>))"

text \<open>
  Modelled from the spec: \<^verbatim>\<open>MultiBuilder\<close> and the \<^verbatim>\<open>execute\<close> overload taking
  its deque (neither is among the sources). The builder accumulates argument vectors;
  executing it stages one request holding the commands between MULTI and EXEC.
\<close>

type_synonym MultiBuilder = "string list list"

definition emplace_back :: "string list \<Rightarrow> MultiBuilder \<Rightarrow> MultiBuilder" where
  "emplace_back cmd multi = multi @ [cmd]"

definition executeMulti :: "MultiBuilder \<Rightarrow> QClient \<Rightarrow> nat \<times> QClient" where
  "executeMulti multi q =
     (let (f, w) = stage ([[''MULTI'']] @ multi @ [[''EXEC'']]) (writerThread q)
      in (f, q\<lparr>writerThread := w\<rparr>))"

text \<open>
  \<^verbatim>\<open>cleanup\<close>: the writer is deactivated, stream and reader are freed, and the
  pending requests are cleared.
\<close>

definition cleanup :: "QClient \<Rightarrow> QClient" where
  "cleanup q =
     q\<lparr>networkStream := None, reader := False,
       writerThread := clearPending (deactivate (writerThread q))\<rparr>"

text \<open>
  \<^verbatim>\<open>connectTCP\<close>: whether the new stream comes up is decided by the network; it is
  the argument \<open>ok\<close>.
\<close>

definition connectTCP :: "bool \<Rightarrow> QClient \<Rightarrow> QClient" where
  "connectTCP ok q =
     (if \<not> ok then q\<lparr>networkStream := Some (targetEndpoint q, False), available := False\<rparr>
      else q\<lparr>networkStream := Some (targetEndpoint q, True),
             writerThread := activate (writerThread q)\<rparr>)"

text \<open>
  \<^verbatim>\<open>processRedirection\<close>. \<^verbatim>\<open>Endpoint::empty\<close> is declared in \<^verbatim>\<open>Members.hh\<close>,
  which is not among the sources: it is the parameter \<open>isEmpty\<close>.
\<close>

definition processRedirection :: "(Endpoint \<Rightarrow> bool) \<Rightarrow> QClient \<Rightarrow> QClient" where
  "processRedirection isEmpty q =
     (let q1 =
        (if \<not> isEmpty (redirectedEndpoint q)
         then q\<lparr>targetEndpoint := redirectedEndpoint q, redirectionActive := True\<rparr>
         else if redirectionActive q then q\<lparr>redirectionActive := False\<rparr>
         else q)
      in q1\<lparr>redirectedEndpoint := Endpoint_default\<rparr>)"

definition discoverIntercept :: "QClient \<Rightarrow> QClient" where
  "discoverIntercept q =
     (case intercepts q (host (targetEndpoint q), port (targetEndpoint q)) of
        None \<Rightarrow> q
      | Some (host2, port2) \<Rightarrow> q\<lparr>targetEndpoint := \<lparr>host = host2, port = port2\<rparr>\<rparr>)"

text \<open>
  \<^verbatim>\<open>connect\<close>. Indexing the member vector out of range (which includes an empty
  vector, where the modulus is zero as well) is undefined in the source and an error
  here. With \<open>nextMember\<close> below the vector's length the increment cannot overflow
  \<^verbatim>\<open>size_t\<close>, so the index is a natural number.
\<close>

definition connect :: "(Endpoint \<Rightarrow> bool) \<Rightarrow> bool \<Rightarrow> QClient \<Rightarrow> error + QClient" where
  "connect isEmpty ok q0 =
     (let q = cleanup q0 in
      if nextMember q < length (members q) then
        (let q1 = q\<lparr>targetEndpoint := members q ! nextMember q\<rparr>;
             q2 = q1\<lparr>nextMember := (nextMember q1 + 1) mod length (members q1)\<rparr>;
             q3 = processRedirection isEmpty q2;
             q4 = discoverIntercept q3;
             q5 = q4\<lparr>reader := True\<rparr>;
             q6 = connectTCP ok q5;
             q7 = q6\<lparr>handshakePending := False\<rparr>
         in Inr (case handshake q7 of
                   None \<Rightarrow> q7
                 | Some h \<Rightarrow> (snd (execute (provideHandshake h) q7))\<lparr>handshakePending := True\<rparr>))
      else Inl NoSuchMember)"

text \<open>The constructors: a fresh writer thread, then \<^verbatim>\<open>startEventLoop\<close> connects.\<close>

definition WriterThread_new :: WriterThread where
  "WriterThread_new = \<lparr>active = False, pending = [], resolved = [], nextFuture = 0\<rparr>"

definition QClient_new ::
  "(Endpoint \<Rightarrow> bool) \<Rightarrow> bool \<Rightarrow> ((string \<times> int) \<rightharpoonup> (string \<times> int)) \<Rightarrow>
   Endpoint list \<Rightarrow> bool \<Rightarrow> Handshake option \<Rightarrow> error + QClient" where
  "QClient_new isEmpty ok table members0 redirects handshake0 =
     connect isEmpty ok
       \<lparr>nextMember = 0, members = members0, targetEndpoint = Endpoint_default,
        redirectedEndpoint = Endpoint_default, redirectionActive = False,
        transparentRedirects = redirects, networkStream = None, reader = False,
        handshake = handshake0, handshakePending = True, available = True,
        writerThread = WriterThread_new, intercepts = table\<rparr>"

text \<open>
  The tail of an iteration of \<^verbatim>\<open>eventLoop\<close> when the read loop has ended and
  \<^verbatim>\<open>shutdown\<close> is not set: the backoff (in milliseconds) grows by one below 2048,
  and the client reconnects. The destructor runs \<^verbatim>\<open>cleanup\<close> once the loop has
  been joined.
\<close>

definition eventLoopReconnect ::
  "(Endpoint \<Rightarrow> bool) \<Rightarrow> bool \<Rightarrow> nat \<Rightarrow> QClient \<Rightarrow> error + (nat \<times> QClient)" where
  "eventLoopReconnect isEmpty ok backoff q =
     (case connect isEmpty ok q of
        Inl e \<Rightarrow> Inl e
      | Inr q' \<Rightarrow> Inr (if backoff < 2048 then backoff + 1 else backoff, q'))"

definition QClient_destroy :: "QClient \<Rightarrow> QClient" where
  "QClient_destroy q = cleanup q"

subsection \<open>Feeding replies\<close>

text \<open>
  What \<^verbatim>\<open>redisReaderGetReply\<close> yields, call after call: a reply, or \<^verbatim>\<open>REDIS_ERR\<close>;
  the end of the list is the null reply that ends the loop. The parsing of bytes into
  replies is hiredis's.
\<close>

datatype readerResult = Reply redisReply | ReaderError

text \<open>
  The handshake gate of \<^verbatim>\<open>feed\<close>: \<open>Inr None\<close> when the handshake rejects the
  response. Dereferencing a null handshake is an error.
\<close>

definition checkHandshake :: "QClient \<Rightarrow> redisReply \<Rightarrow> error + QClient option" where
  "checkHandshake q rr =
     (if handshakePending q then
        (case handshake q of
           None \<Rightarrow> Inl NullHandshake
         | Some h \<Rightarrow>
             if \<not> validateResponse h rr then Inr None
             else Inr (Some (q\<lparr>handshakePending := False\<rparr>)))
      else Inr (Some q))"

text \<open>
  The redirect test of \<^verbatim>\<open>feed\<close>: the endpoint to redirect to, if the reply is a
  redirect the client follows. \<^verbatim>\<open>split\<close> and \<^verbatim>\<open>parseServer\<close> are declared in
  \<^verbatim>\<open>Utils.hh\<close>, which is not among the sources: they are the parameters \<open>split\<close>
  and \<open>parseServer\<close>.
\<close>

definition isRedirect ::
  "(string \<Rightarrow> string \<Rightarrow> string list) \<Rightarrow> (string \<Rightarrow> (string \<times> int) option) \<Rightarrow>
   QClient \<Rightarrow> redisReply \<Rightarrow> Endpoint option" where
  "isRedirect split parseServer q rr =
     (case rr of
        ReplyError str \<Rightarrow>
          if transparentRedirects q \<and> take 6 str = ''MOVED '' then
            (let response = split str '' '' in
             if length response = 3 then
               (case parseServer (response ! 2) of
                  Some (h, p) \<Rightarrow> Some \<lparr>host = h, port = p\<rparr>
                | None \<Rightarrow> None)
             else None)
          else None
      | _ \<Rightarrow> None)"

fun feed ::
  "(string \<Rightarrow> string \<Rightarrow> string list) \<Rightarrow> (string \<Rightarrow> (string \<times> int) option) \<Rightarrow>
   QClient \<Rightarrow> readerResult list \<Rightarrow> error + (bool \<times> QClient)" where
  "feed split parseServer q [] = Inr (True, q)"
| "feed split parseServer q (ReaderError # rest) = Inr (False, q)"
| "feed split parseServer q (Reply rr # rest) =
     (case checkHandshake q rr of
        Inl e \<Rightarrow> Inl e
      | Inr None \<Rightarrow> Inr (False, q)
      | Inr (Some q1) \<Rightarrow>
          (case isRedirect split parseServer q1 rr of
             Some e \<Rightarrow> Inr (False, q1\<lparr>redirectedEndpoint := e\<rparr>)
           | None \<Rightarrow>
               feed split parseServer (q1\<lparr>writerThread := satisfy rr (writerThread q1)\<rparr>) rest))"

text \<open>
  Modelled from the spec: \<^verbatim>\<open>split\<close> and \<^verbatim>\<open>parseServer\<close> of \<^verbatim>\<open>Utils.hh\<close> (not
  among the sources), for evaluating \<^verbatim>\<open>feed\<close> on concrete replies. The redirect text
  is \<^verbatim>\<open>MOVED <slot> <host>:<port>\<close>, space-separated; the third token is parsed as
  \<^verbatim>\<open>host:port\<close>, the port in decimal digits.
\<close>

fun splitChar :: "char \<Rightarrow> string \<Rightarrow> string \<Rightarrow> string list" where
  "splitChar d acc [] = [rev acc]"
| "splitChar d acc (c # cs) =
     (if c = d then rev acc # splitChar d [] cs else splitChar d (c # acc) cs)"

definition splitSpec :: "string \<Rightarrow> string \<Rightarrow> string list" where
  "splitSpec s delim = (case delim of [d] \<Rightarrow> splitChar d [] s | _ \<Rightarrow> [s])"

definition digitValue :: "char \<Rightarrow> int option" where
  "digitValue c =
     (let n = (of_char c :: nat) in if 48 \<le> n \<and> n \<le> 57 then Some (int n - 48) else None)"

fun decimal :: "int \<Rightarrow> string \<Rightarrow> int option" where
  "decimal n [] = Some n"
| "decimal n (c # cs) =
     (case digitValue c of None \<Rightarrow> None | Some v \<Rightarrow> decimal (10 * n + v) cs)"

definition parseServerSpec :: "string \<Rightarrow> (string \<times> int) option" where
  "parseServerSpec s =
     (case splitChar CHR '':'' [] s of
        [h, p] \<Rightarrow> (if p = [] then None else map_option (\<lambda>n. (h, n)) (decimal 0 p))
      | _ \<Rightarrow> None)"

section \<open>SharedHash\<close>

text \<open>
  The shared hash. \<open>futureReply\<close> is the future of the resilvering request the hash
  waits for (\<open>None\<close>: no valid future); \<open>qcl\<close> is the client the hash talks
  through, the one its manager hands out. The mutexes are not modelled: every operation
  runs as a whole.
\<close>

record SharedHash =
  key :: string
  currentVersion :: "64 word"
  contents :: "string \<rightharpoonup> string"
  futureReply :: "nat option"
  logger :: Logger
  qcl :: QClient
  subscription :: string

definition triggerResilvering :: "SharedHash \<Rightarrow> SharedHash" where
  "triggerResilvering h =
     (let (f, q) = execute [''VHGETALL'', key h] (qcl h)
      in h\<lparr>futureReply := Some f, qcl := q\<rparr>)"

definition parseError :: "redisReplyPtr \<Rightarrow> SharedHash \<Rightarrow> SharedHash" where
  "parseError reply h = h\<lparr>logger := logger h @ [(kWarn, CouldNotParse reply)]\<rparr>"

definition resilver :: "64 word \<Rightarrow> (string \<rightharpoonup> string) \<Rightarrow> SharedHash \<Rightarrow> SharedHash" where
  "resilver revision newContents h =
     h\<lparr>logger := logger h @ [(kWarn, BeingResilvered (key h) revision (currentVersion h))],
       currentVersion := revision, contents := newContents\<rparr>"

text \<open>
  The loop of \<^verbatim>\<open>handleResponse\<close> over the content array, two elements at a time,
  filling a local map; \<open>None\<close> when an element is not a string. It runs only on arrays
  of even length.
\<close>

fun parseContents ::
  "redisReply list \<Rightarrow> (string \<rightharpoonup> string) \<Rightarrow> (string \<rightharpoonup> string) option" where
  "parseContents [] m = Some m"
| "parseContents [a] m = None"
| "parseContents (a # b # rest) m =
     (case a of
        ReplyString k \<Rightarrow>
          (case b of
             ReplyString v \<Rightarrow> parseContents rest (m(k \<mapsto> v))
           | _ \<Rightarrow> None)
      | _ \<Rightarrow> None)"

text \<open>
  \<^verbatim>\<open>handleResponse\<close>. The revision is the reply's \<^verbatim>\<open>long long\<close> read as
  \<^verbatim>\<open>uint64_t\<close>: the same 64 bits.
\<close>

definition handleResponse :: "redisReplyPtr \<Rightarrow> SharedHash \<Rightarrow> SharedHash" where
  "handleResponse reply h =
     (case reply of
        Some (ReplyArray [e0, e1]) \<Rightarrow>
          (case e0 of
             ReplyInteger revision \<Rightarrow>
               (case e1 of
                  ReplyArray contentArray \<Rightarrow>
                    if length contentArray mod 2 \<noteq> 0 then parseError reply h
                    else
                      (case parseContents contentArray Map.empty of
                         None \<Rightarrow> parseError reply h
                       | Some c \<Rightarrow> resilver revision c h)
                | _ \<Rightarrow> parseError reply h)
           | _ \<Rightarrow> parseError reply h)
      | _ \<Rightarrow> parseError reply h)"

text \<open>
  \<^verbatim>\<open>checkFuture\<close>: the future is ready when the writer has resolved it;
  \<^verbatim>\<open>get()\<close> takes the reply and leaves the future invalid.
\<close>

definition checkFuture :: "SharedHash \<Rightarrow> SharedHash" where
  "checkFuture h =
     (case futureReply h of
        None \<Rightarrow> h
      | Some f \<Rightarrow>
          (case map_of (resolved (writerThread (qcl h))) f of
             None \<Rightarrow> h
           | Some reply \<Rightarrow> handleResponse reply (h\<lparr>futureReply := None\<rparr>)))"

text \<open>
  The constructor. Attaching the listener and subscribing to the channel happen in
  classes that are not among the sources; the channel name is kept.
\<close>

definition SharedHash_new :: "Logger \<Rightarrow> QClient \<Rightarrow> string \<Rightarrow> SharedHash" where
  "SharedHash_new lg q key0 =
     triggerResilvering
       \<lparr>key = key0, currentVersion = 0, contents = Map.empty, futureReply = None,
        logger = lg, qcl = q, subscription = ''__vhash@'' @ key0\<rparr>"

definition get :: "string \<Rightarrow> SharedHash \<Rightarrow> string option \<times> SharedHash" where
  "get field h = (let h1 = checkFuture h in (contents h1 field, h1))"

definition getCurrentVersion :: "SharedHash \<Rightarrow> 64 word \<times> SharedHash" where
  "getCurrentVersion h = (let h1 = checkFuture h in (currentVersion h1, h1))"

definition notifyConnectionLost :: "SharedHash \<Rightarrow> SharedHash" where
  "notifyConnectionLost h = h"

definition notifyConnectionEstablished :: "SharedHash \<Rightarrow> SharedHash" where
  "notifyConnectionEstablished h = checkFuture (triggerResilvering h)"

definition processIncoming :: "SharedHash \<Rightarrow> SharedHash" where
  "processIncoming h = checkFuture h"

text \<open>
  \<^verbatim>\<open>set\<close> on a batch. The batch is a \<^verbatim>\<open>std::map\<close>, walked from \<^verbatim>\<open>begin()\<close> to
  \<^verbatim>\<open>end()\<close>: it is given as its entries in that order.
\<close>

primrec set_loop :: "(string \<times> string) list \<Rightarrow> MultiBuilder \<Rightarrow> MultiBuilder" where
  "set_loop [] multi = multi"
| "set_loop (it # rest) multi =
     set_loop rest
       (if snd it = [] then emplace_back [''VHDEL'', fst it] multi
        else emplace_back [''VHSET'', fst it, snd it] multi)"

definition set_batch :: "(string \<times> string) list \<Rightarrow> SharedHash \<Rightarrow> SharedHash" where
  "set_batch batch h = h\<lparr>qcl := snd (executeMulti (set_loop batch []) (qcl h))\<rparr>"

definition set_field :: "string \<Rightarrow> string \<Rightarrow> SharedHash \<Rightarrow> SharedHash" where
  "set_field field v h = set_batch [(field, v)] h"

definition del :: "string \<Rightarrow> SharedHash \<Rightarrow> SharedHash" where
  "del field h = set_batch [(field, [])] h"

definition feedSingleKeyValue :: "string \<Rightarrow> string \<Rightarrow> SharedHash \<Rightarrow> SharedHash" where
  "feedSingleKeyValue k v h =
     (if v = [] then h\<lparr>contents := (contents h)(k := None)\<rparr>
      else h\<lparr>contents := (contents h)(k \<mapsto> v)\<rparr>)"

primrec feedUpdates :: "(string \<times> string) list \<Rightarrow> SharedHash \<Rightarrow> SharedHash" where
  "feedUpdates [] h = h"
| "feedUpdates (u # rest) h = feedUpdates rest (feedSingleKeyValue (fst u) (snd u) h)"

text \<open>
  \<^verbatim>\<open>feedRevision\<close>. The arithmetic is that of \<^verbatim>\<open>uint64_t\<close>: \<open>currentVersion + 2\<close>
  wraps around. The assertion is a branch of its own.
\<close>

definition feedRevision ::
  "64 word \<Rightarrow> (string \<times> string) list \<Rightarrow> SharedHash \<Rightarrow> error + (bool \<times> SharedHash)" where
  "feedRevision revision updates h =
     (if revision \<le> currentVersion h then
        Inr (False,
          h\<lparr>logger := logger h @
            [(kError, NewerThanServer (key h) revision (currentVersion h))]\<rparr>)
      else if revision \<ge> currentVersion h + 2 then
        Inr (False,
          h\<lparr>logger := logger h @
            [(kWarn, WentOutOfDate (key h) revision (currentVersion h))]\<rparr>)
      else if revision \<noteq> currentVersion h + 1 then Inl AssertionFailed
      else Inr (True, (feedUpdates updates h)\<lparr>currentVersion := revision\<rparr>))"

definition feedRevisionSingle ::
  "64 word \<Rightarrow> string \<Rightarrow> string \<Rightarrow> SharedHash \<Rightarrow> error + (bool \<times> SharedHash)" where
  "feedRevisionSingle revision k v h = feedRevision revision [(k, v)] h"

section \<open>Sequences of operations and the words of the specification\<close>

text \<open>
  The two inputs that change a shared hash, a run of them, and the versions an observer
  sees along the run (before the first input and after each one).
\<close>

datatype hashInput =
    FeedRevision "64 word" "(string \<times> string) list"
  | Resilver "64 word" "string \<rightharpoonup> string"

definition applyInput :: "hashInput \<Rightarrow> SharedHash \<Rightarrow> SharedHash" where
  "applyInput i h =
     (case i of
        FeedRevision revision updates \<Rightarrow>
          (case feedRevision revision updates h of Inr (b, h') \<Rightarrow> h' | Inl e \<Rightarrow> h)
      | Resilver revision newContents \<Rightarrow> resilver revision newContents h)"

fun observedVersions :: "SharedHash \<Rightarrow> hashInput list \<Rightarrow> 64 word list" where
  "observedVersions h [] = [currentVersion h]"
| "observedVersions h (i # rest) = currentVersion h # observedVersions (applyInput i h) rest"

text \<open>A run in which no resilver carries a revision below the version it replaces.\<close>

fun resilversForward :: "SharedHash \<Rightarrow> hashInput list \<Rightarrow> bool" where
  "resilversForward h [] = True"
| "resilversForward h (i # rest) =
     ((case i of Resilver revision newContents \<Rightarrow> currentVersion h \<le> revision | _ \<Rightarrow> True)
      \<and> resilversForward (applyInput i h) rest)"

text \<open>
  What happens to a shared hash during its life: the notifications of its client, an
  incoming message, the reads, and the client's reader thread completing the oldest
  pending request with the server's answer.
\<close>

datatype hashEvent =
    Established
  | Lost
  | Incoming
  | Read string
  | ReadVersion
  | Answer redisReply

definition applyEvent :: "hashEvent \<Rightarrow> SharedHash \<Rightarrow> SharedHash" where
  "applyEvent e h =
     (case e of
        Established \<Rightarrow> notifyConnectionEstablished h
      | Lost \<Rightarrow> notifyConnectionLost h
      | Incoming \<Rightarrow> processIncoming h
      | Read field \<Rightarrow> snd (get field h)
      | ReadVersion \<Rightarrow> snd (getCurrentVersion h)
      | Answer rr \<Rightarrow> h\<lparr>qcl := (qcl h)\<lparr>writerThread := satisfy rr (writerThread (qcl h))\<rparr>\<rparr>)"

primrec applyEvents :: "hashEvent list \<Rightarrow> SharedHash \<Rightarrow> SharedHash" where
  "applyEvents [] h = h"
| "applyEvents (e # rest) h = applyEvents rest (applyEvent e h)"

text \<open>The resilvering requests for a key that a client has staged and not yet seen answered.\<close>

definition resilversInFlight :: "string \<Rightarrow> QClient \<Rightarrow> nat" where
  "resilversInFlight k q =
     length (filter (\<lambda>p. snd p = [[''VHGETALL'', k]]) (pending (writerThread q)))"

definition establishedCount :: "hashEvent list \<Rightarrow> nat" where
  "establishedCount events = length (filter (\<lambda>e. e = Established) events)"

definition answerFree :: "hashEvent list \<Rightarrow> bool" where
  "answerFree events = list_all (\<lambda>e. case e of Answer rr \<Rightarrow> False | _ \<Rightarrow> True) events"

text \<open>
  The hash waits for no reply, or for the reply to the request its client staged last.
\<close>

definition tracksLatest :: "SharedHash \<Rightarrow> bool" where
  "tracksLatest h =
     (case futureReply h of
        None \<Rightarrow> True
      | Some f \<Rightarrow> Suc f = nextFuture (writerThread (qcl h)))"

text \<open>
  The shape of a resilvering reply in the words of the specification: a two-element array
  of an integer and an array of an even number of strings; and the map such an array of
  strings denotes, field by field, a later pair winning over an earlier one.
\<close>

definition isString :: "redisReply \<Rightarrow> bool" where
  "isString r = (case r of ReplyString s \<Rightarrow> True | _ \<Rightarrow> False)"

definition snapshotShaped :: "redisReplyPtr \<Rightarrow> bool" where
  "snapshotShaped reply =
     (case reply of
        Some (ReplyArray [ReplyInteger revision, ReplyArray xs]) \<Rightarrow>
          even (length xs) \<and> list_all isString xs
      | _ \<Rightarrow> False)"

fun fieldPairs :: "redisReply list \<Rightarrow> (string \<times> string) list" where
  "fieldPairs (ReplyString k # ReplyString v # rest) = (k, v) # fieldPairs rest"
| "fieldPairs xs = []"

definition decodedMap :: "redisReply list \<Rightarrow> (string \<rightharpoonup> string)" where
  "decodedMap xs = map_of (rev (fieldPairs xs))"

text \<open>The last value an update list gives a field, if it mentions the field at all.\<close>

definition lastUpdate :: "(string \<times> string) list \<Rightarrow> string \<Rightarrow> string option" where
  "lastUpdate updates field = map_of (rev updates) field"

text \<open>
  A reply passes the handshake gate of \<^verbatim>\<open>feed\<close> when no handshake is pending, or
  the pending handshake accepts it.
\<close>

definition passesHandshake :: "QClient \<Rightarrow> redisReply \<Rightarrow> bool" where
  "passesHandshake q rr =
     (if handshakePending q then
        (case handshake q of None \<Rightarrow> False | Some hs \<Rightarrow> validateResponse hs rr)
      else True)"

text \<open>The endpoint a connection attempt selects, and what the intercept table makes of one.\<close>

definition selectedEndpoint :: "(Endpoint \<Rightarrow> bool) \<Rightarrow> QClient \<Rightarrow> Endpoint" where
  "selectedEndpoint isEmpty q =
     (if isEmpty (redirectedEndpoint q) then members q ! nextMember q
      else redirectedEndpoint q)"

definition intercepted :: "((string \<times> int) \<rightharpoonup> (string \<times> int)) \<Rightarrow> Endpoint \<Rightarrow> Endpoint" where
  "intercepted table e =
     (case table (host e, port e) of
        None \<Rightarrow> e
      | Some hp \<Rightarrow> \<lparr>host = fst hp, port = snd hp\<rparr>)"

text \<open>The commands the specification has \<^verbatim>\<open>set\<close> emit for a batch.\<close>

definition batchCommands :: "(string \<times> string) list \<Rightarrow> string list list" where
  "batchCommands batch =
     map (\<lambda>(field, v). if v = [] then [''VHDEL'', field] else [''VHSET'', field, v]) batch"

section \<open>Example states\<close>

text \<open>
  Modelled from the spec: \<^verbatim>\<open>Endpoint::empty\<close> (\<^verbatim>\<open>Members.hh\<close> is not among the
  sources), for evaluating \<^verbatim>\<open>connect\<close> on concrete clients. The spec speaks only of a
  pending redirect endpoint being set or not: an endpoint without a host is not set.
\<close>

definition emptySpec :: "Endpoint \<Rightarrow> bool" where
  "emptySpec e = (host e = [])"

definition acceptOK :: Handshake where
  "acceptOK =
     \<lparr>provideHandshake = [''AUTH'', ''secret''],
      validateResponse = (\<lambda>rr. rr = ReplyStatus ''OK'')\<rparr>"

text \<open>
  A client of the cluster A:6379, B:6380 with transparent redirects, no handshake and
  nothing staged, as it is before its first connection attempt.
\<close>

definition clientAB :: QClient where
  "clientAB =
     \<lparr>nextMember = 0,
      members = [\<lparr>host = ''A'', port = 6379\<rparr>, \<lparr>host = ''B'', port = 6380\<rparr>],
      targetEndpoint = Endpoint_default, redirectedEndpoint = Endpoint_default,
      redirectionActive = False, transparentRedirects = True, networkStream = None,
      reader = False, handshake = None, handshakePending = False, available = True,
      writerThread = WriterThread_new, intercepts = Map.empty\<rparr>"

text \<open>The same client with one user request (\<^verbatim>\<open>GET x\<close>) staged.\<close>

definition clientGet :: QClient where
  "clientGet = snd (execute [''GET'', ''x''] clientAB)"

text \<open>
  The client with a redirect to C:7777 pending and an intercept that sends C:7777 to
  localhost:1234.
\<close>

definition clientMoved :: QClient where
  "clientMoved =
     (addIntercept ''C'' 7777 ''localhost'' 1234 clientAB)
       \<lparr>redirectedEndpoint := \<lparr>host = ''C'', port = 7777\<rparr>\<rparr>"

text \<open>
  A client of the same cluster constructed with the handshake \<open>acceptOK\<close>, and one
  user request staged after its construction.
\<close>

definition clientAuth :: QClient where
  "clientAuth =
     snd (execute [''GET'', ''x'']
       (projr (QClient_new emptySpec True Map.empty (members clientAB) False (Some acceptOK))))"

text \<open>A shared hash for key \<^verbatim>\<open>K\<close> at a given version, holding \<^verbatim>\<open>a\<close>.\<close>

definition hashAt :: "64 word \<Rightarrow> string \<Rightarrow> SharedHash" where
  "hashAt v a =
     \<lparr>key = ''K'', currentVersion = v, contents = [''a'' \<mapsto> a], futureReply = None,
      logger = [], qcl = clientAB, subscription = ''__vhash@K''\<rparr>"

section \<open>Basic facts\<close>

declare feed.simps [simp del]

subsection \<open>Fields left alone by the steps of a connection attempt\<close>

lemma deactivate_fields [simp]:
  "pending (deactivate w) = pending w"
  "resolved (deactivate w) = resolved w"
  "nextFuture (deactivate w) = nextFuture w"
  by (simp_all add: deactivate_def)

lemma clearPending_fields [simp]:
  "pending (clearPending w) = []"
  "resolved (clearPending w) = resolved w @ map (\<lambda>p. (fst p, None)) (pending w)"
  "nextFuture (clearPending w) = nextFuture w"
  by (simp_all add: clearPending_def case_prod_unfold)

lemma cleanup_fields [simp]:
  "nextMember (cleanup q) = nextMember q"
  "transparentRedirects (cleanup q) = transparentRedirects q"
  "members (cleanup q) = members q"
  "redirectedEndpoint (cleanup q) = redirectedEndpoint q"
  "handshake (cleanup q) = handshake q"
  "intercepts (cleanup q) = intercepts q"
  "writerThread (cleanup q) = clearPending (deactivate (writerThread q))"
  by (simp_all add: cleanup_def)

lemma processRedirection_fields [simp]:
  "nextMember (processRedirection isEmpty q) = nextMember q"
  "transparentRedirects (processRedirection isEmpty q) = transparentRedirects q"
  "members (processRedirection isEmpty q) = members q"
  "handshake (processRedirection isEmpty q) = handshake q"
  "intercepts (processRedirection isEmpty q) = intercepts q"
  "writerThread (processRedirection isEmpty q) = writerThread q"
  "redirectedEndpoint (processRedirection isEmpty q) = Endpoint_default"
  "targetEndpoint (processRedirection isEmpty q) =
     (if isEmpty (redirectedEndpoint q) then targetEndpoint q else redirectedEndpoint q)"
  by (simp_all add: processRedirection_def Let_def)

lemma discoverIntercept_fields [simp]:
  "nextMember (discoverIntercept q) = nextMember q"
  "transparentRedirects (discoverIntercept q) = transparentRedirects q"
  "members (discoverIntercept q) = members q"
  "handshake (discoverIntercept q) = handshake q"
  "intercepts (discoverIntercept q) = intercepts q"
  "writerThread (discoverIntercept q) = writerThread q"
  "redirectedEndpoint (discoverIntercept q) = redirectedEndpoint q"
  "targetEndpoint (discoverIntercept q) = intercepted (intercepts q) (targetEndpoint q)"
  by (simp_all add: discoverIntercept_def intercepted_def split: option.splits)

lemma connectTCP_fields [simp]:
  "nextMember (connectTCP ok q) = nextMember q"
  "transparentRedirects (connectTCP ok q) = transparentRedirects q"
  "members (connectTCP ok q) = members q"
  "handshake (connectTCP ok q) = handshake q"
  "intercepts (connectTCP ok q) = intercepts q"
  "redirectedEndpoint (connectTCP ok q) = redirectedEndpoint q"
  "targetEndpoint (connectTCP ok q) = targetEndpoint q"
  "pending (writerThread (connectTCP ok q)) = pending (writerThread q)"
  "resolved (writerThread (connectTCP ok q)) = resolved (writerThread q)"
  "nextFuture (writerThread (connectTCP ok q)) = nextFuture (writerThread q)"
  by (simp_all add: connectTCP_def activate_def)

lemma execute_fields [simp]:
  "nextMember (snd (execute cmd q)) = nextMember q"
  "members (snd (execute cmd q)) = members q"
  "handshake (snd (execute cmd q)) = handshake q"
  "handshakePending (snd (execute cmd q)) = handshakePending q"
  "transparentRedirects (snd (execute cmd q)) = transparentRedirects q"
  "intercepts (snd (execute cmd q)) = intercepts q"
  "redirectedEndpoint (snd (execute cmd q)) = redirectedEndpoint q"
  "targetEndpoint (snd (execute cmd q)) = targetEndpoint q"
  "pending (writerThread (snd (execute cmd q))) =
     pending (writerThread q) @ [(nextFuture (writerThread q), [cmd])]"
  "resolved (writerThread (snd (execute cmd q))) = resolved (writerThread q)"
  "nextFuture (writerThread (snd (execute cmd q))) = Suc (nextFuture (writerThread q))"
  "fst (execute cmd q) = nextFuture (writerThread q)"
  by (simp_all add: execute_def stage_def)

text \<open>
  A connection attempt on a client whose member index is in range succeeds; what it
  leaves in the writer's queue, and which endpoint it selects.
\<close>

lemma connect_writer:
  assumes "nextMember q < length (members q)"
  shows "\<exists>q'. connect isEmpty ok q = Inr q'
     \<and> resolved (writerThread q') =
         resolved (writerThread q) @ map (\<lambda>p. (fst p, None)) (pending (writerThread q))
     \<and> pending (writerThread q') =
         (case handshake q of
            None \<Rightarrow> []
          | Some hs \<Rightarrow> [(nextFuture (writerThread q), [provideHandshake hs])])
     \<and> handshake q' = handshake q
     \<and> handshakePending q' = (handshake q \<noteq> None)"
  using assms
  by (cases "handshake q") (simp_all add: connect_def Let_def)

lemma connect_fields:
  assumes "nextMember q < length (members q)"
  shows "\<exists>q'. connect isEmpty ok q = Inr q'
     \<and> targetEndpoint q' = intercepted (intercepts q) (selectedEndpoint isEmpty q)
     \<and> nextMember q' = (nextMember q + 1) mod length (members q)
     \<and> redirectedEndpoint q' = Endpoint_default
     \<and> members q' = members q \<and> intercepts q' = intercepts q"
  using assms
  by (cases "handshake q") (simp_all add: connect_def Let_def selectedEndpoint_def)

subsection \<open>The handshake gate and the redirect test\<close>

lemma isRedirect_pending [simp]:
  "isRedirect split parseServer (q\<lparr>handshakePending := b\<rparr>) rr = isRedirect split parseServer q rr"
  by (simp add: isRedirect_def split: redisReply.splits)

lemma checkHandshake_passes:
  "passesHandshake q rr \<Longrightarrow> checkHandshake q rr = Inr (Some (q\<lparr>handshakePending := False\<rparr>))"
  by (auto simp: passesHandshake_def checkHandshake_def split: if_splits option.splits)

lemma connect_handshake:
  assumes "nextMember q < length (members q)" and "handshake q = Some hs"
  shows "\<exists>q'. connect isEmpty ok q = Inr q'
     \<and> handshake q' = Some hs \<and> handshakePending q'
     \<and> pending (writerThread q') = [(nextFuture (writerThread q), [provideHandshake hs])]
     \<and> nextFuture (writerThread q') = Suc (nextFuture (writerThread q))"
  using assms by (simp add: connect_def Let_def)

lemma feed_handshake_rejects:
  assumes "handshake q = Some hs" and "handshakePending q" and "\<not> validateResponse hs rr"
  shows "feed split parseServer q (Reply rr # rest) = Inr (False, q)"
  using assms by (simp add: feed.simps checkHandshake_def)

lemma feed_handshake_accepts:
  assumes "handshake q = Some hs" and "handshakePending q" and "validateResponse hs rr"
    and "isRedirect split parseServer q rr = None"
    and "pending (writerThread q) = (f, req) # users"
  shows "feed split parseServer q (Reply rr # rest) =
     feed split parseServer
       (q\<lparr>handshakePending := False,
          writerThread := (writerThread q)
            \<lparr>pending := users, resolved := resolved (writerThread q) @ [(f, Some rr)]\<rparr>\<rparr>) rest"
  using assms by (simp add: feed.simps checkHandshake_def satisfy_def)

lemma clientAuth_fields:
  "handshake clientAuth = Some acceptOK" "handshakePending clientAuth"
  "pending (writerThread clientAuth) = [(0, [[''AUTH'', ''secret'']]), (1, [[''GET'', ''x'']])]"
  "resolved (writerThread clientAuth) = []"
  "transparentRedirects clientAuth = False"
  by (simp_all add: clientAuth_def QClient_new_def connect_def Let_def clientAB_def
      WriterThread_new_def acceptOK_def)

subsection \<open>Revisions in 64 bits\<close>

text \<open>
  A revision that is neither at most the version nor at least the version plus two
  (computed with wrap-around) is the version's successor, and then the version plus two
  did not wrap.
\<close>

lemma word_between_nat:
  fixes r v :: "64 word"
  assumes "\<not> r \<le> v" and "\<not> v + 2 \<le> r"
  shows "unat v + 2 < 2 ^ 64 \<and> unat r = unat v + 1"
proof -
  from assms(1) have lt: "unat v < unat r"
    by (simp add: word_le_nat_alt)
  from assms(2) have "unat r < unat (v + 2)"
    by (simp add: word_le_nat_alt)
  then have up: "unat r < (unat v + 2) mod 2 ^ 64"
    by (simp add: unat_word_ariths)
  have small: "unat v + 2 < 2 ^ 64"
  proof (rule ccontr)
    assume "\<not> unat v + 2 < 2 ^ 64"
    then have ge: "2 ^ 64 \<le> unat v + 2" by simp
    have "unat v < 2 ^ 64" using unsigned_less [of v] by simp
    with ge have "(unat v + 2) mod 2 ^ 64 = unat v + 2 - 2 ^ 64"
      by (simp add: mod_if)
    with up lt show False by simp
  qed
  with up have "unat r < unat v + 2" by simp
  with lt small show ?thesis by simp
qed

lemma word_between:
  fixes r v :: "64 word"
  assumes "\<not> r \<le> v" and "\<not> v + 2 \<le> r"
  shows "r = v + 1"
proof -
  from word_between_nat [OF assms]
  have "unat r = unat v + 1" and "unat v + 2 < 2 ^ 64" by simp_all
  then have "unat r = unat (v + 1)"
    by (simp add: unat_word_ariths)
  then show ?thesis by (simp add: word_unat_eq_iff)
qed

lemma gap_as_words:
  fixes r v :: "64 word"
  assumes "unat v + 2 \<le> unat r"
  shows "v + 2 \<le> r" and "\<not> r \<le> v"
proof -
  have "unat r < 2 ^ 64" using unsigned_less [of r] by simp
  with assms have "unat (v + 2) = unat v + 2"
    by (simp add: unat_word_ariths)
  with assms show "v + 2 \<le> r" by (simp add: word_le_nat_alt)
  from assms show "\<not> r \<le> v" by (simp add: word_le_nat_alt)
qed

lemma successor_as_words:
  fixes v :: "64 word"
  assumes "unat v + 2 < 2 ^ 64"
  shows "\<not> v + 1 \<le> v" and "\<not> v + 2 \<le> v + 1"
proof -
  have a: "unat (v + 1) = unat v + 1"
    using assms by (simp add: unat_word_ariths)
  have b: "unat (v + 2) = unat v + 2"
    using assms by (simp add: unat_word_ariths)
  show "\<not> v + 1 \<le> v" using a by (simp add: word_le_nat_alt)
  show "\<not> v + 2 \<le> v + 1" using a b by (simp add: word_le_nat_alt)
qed

text \<open>The assertion of \<^verbatim>\<open>feedRevision\<close> never fails: the function has three outcomes.\<close>

lemma feedRevision_cases:
  "feedRevision revision updates h =
     (if revision \<le> currentVersion h then
        Inr (False,
          h\<lparr>logger := logger h @
            [(kError, NewerThanServer (key h) revision (currentVersion h))]\<rparr>)
      else if currentVersion h + 2 \<le> revision then
        Inr (False,
          h\<lparr>logger := logger h @
            [(kWarn, WentOutOfDate (key h) revision (currentVersion h))]\<rparr>)
      else Inr (True, (feedUpdates updates h)\<lparr>currentVersion := revision\<rparr>))"
  unfolding feedRevision_def by (simp add: word_between)

lemma feedUpdates_version [simp]: "currentVersion (feedUpdates updates h) = currentVersion h"
  by (induction updates arbitrary: h) (simp_all add: feedSingleKeyValue_def)

lemma feedUpdates_contents:
  "contents (feedUpdates updates h) field =
     (case lastUpdate updates field of
        None \<Rightarrow> contents h field
      | Some v \<Rightarrow> if v = [] then None else Some v)"
proof (induction updates arbitrary: h)
  case Nil
  show ?case by (simp add: lastUpdate_def)
next
  case (Cons u rest)
  show ?case
    by (cases u)
      (auto simp: Cons.IH lastUpdate_def feedSingleKeyValue_def map_add_def
        split: option.splits)
qed

subsection \<open>Runs of inputs\<close>

lemma applyInput_mono:
  "(case i of Resilver revision newContents \<Rightarrow> currentVersion h \<le> revision | _ \<Rightarrow> True) \<Longrightarrow>
   currentVersion h \<le> currentVersion (applyInput i h)"
  by (cases i) (auto simp: applyInput_def feedRevision_cases resilver_def)

lemma hd_observedVersions [simp]: "hd (observedVersions h inputs) = currentVersion h"
  by (cases inputs) simp_all

lemma observedVersions_not_Nil [simp]: "observedVersions h inputs \<noteq> []"
  by (cases inputs) simp_all

subsection \<open>Resilvering replies\<close>

lemma parseContents_strings:
  "even (length xs) \<Longrightarrow> list_all isString xs \<Longrightarrow>
   parseContents xs m = Some (m ++ decodedMap xs)"
proof (induction xs arbitrary: m rule: fieldPairs.induct)
  case (1 k v rest)
  then show ?case
    by (simp add: decodedMap_def isString_def map_add_upd_left)
qed (simp_all add: decodedMap_def isString_def)

lemma parseContents_not_strings:
  "even (length xs) \<Longrightarrow> \<not> list_all isString xs \<Longrightarrow> parseContents xs m = None"
  by (induction xs m rule: parseContents.induct)
    (auto simp: isString_def split: redisReply.splits)

lemma handleResponse_shaped:
  assumes "even (length xs)" and "list_all isString xs"
  shows "handleResponse (Some (ReplyArray [ReplyInteger revision, ReplyArray xs])) h =
           resilver revision (decodedMap xs) h"
  using assms by (simp add: handleResponse_def parseContents_strings)

lemma handleResponse_unshaped:
  assumes "\<not> snapshotShaped reply"
  shows "handleResponse reply h = parseError reply h"
  using assms
  by (auto simp: handleResponse_def snapshotShaped_def parseContents_not_strings
      split: option.splits redisReply.splits list.splits)

lemma set_loop_append: "set_loop batch multi = multi @ batchCommands batch"
  by (induction batch arbitrary: multi) (auto simp: batchCommands_def emplace_back_def)

subsection \<open>Events in the life of a shared hash\<close>

lemma handleResponse_frame [simp]:
  "qcl (handleResponse reply h) = qcl h"
  "key (handleResponse reply h) = key h"
  "futureReply (handleResponse reply h) = futureReply h"
proof -
  have "handleResponse reply h = parseError reply h
      \<or> (\<exists>revision c. handleResponse reply h = resilver revision c h)"
    by (auto simp: handleResponse_def split: option.splits redisReply.splits list.splits)
  then show "qcl (handleResponse reply h) = qcl h"
    "key (handleResponse reply h) = key h"
    "futureReply (handleResponse reply h) = futureReply h"
    by (auto simp: parseError_def resilver_def)
qed

lemma checkFuture_frame [simp]:
  "qcl (checkFuture h) = qcl h"
  "key (checkFuture h) = key h"
  by (simp_all add: checkFuture_def split: option.splits)

lemma checkFuture_future:
  "futureReply (checkFuture h) = None \<or> futureReply (checkFuture h) = futureReply h"
  by (simp add: checkFuture_def split: option.splits)

lemma triggerResilvering_fields [simp]:
  "key (triggerResilvering h) = key h"
  "futureReply (triggerResilvering h) = Some (nextFuture (writerThread (qcl h)))"
  "pending (writerThread (qcl (triggerResilvering h))) =
     pending (writerThread (qcl h)) @ [(nextFuture (writerThread (qcl h)), [[''VHGETALL'', key h]])]"
  "nextFuture (writerThread (qcl (triggerResilvering h))) =
     Suc (nextFuture (writerThread (qcl h)))"
  by (simp_all add: triggerResilvering_def execute_def stage_def)

lemma satisfy_fields [simp]:
  "nextFuture (satisfy rr w) = nextFuture w"
  "pending (satisfy rr w) = tl (pending w)"
  by (simp_all add: satisfy_def split: list.splits)

lemma applyEvent_key [simp]: "key (applyEvent e h) = key h"
  by (cases e)
    (simp_all add: applyEvent_def notifyConnectionEstablished_def notifyConnectionLost_def
      processIncoming_def get_def getCurrentVersion_def Let_def)

lemma applyEvents_key [simp]: "key (applyEvents events h) = key h"
  by (induction events arbitrary: h) simp_all

lemma length_filter_tl: "length (filter P (tl xs)) \<le> length (filter P xs)"
  by (cases xs) simp_all

lemma applyEvent_in_flight:
  "resilversInFlight (key h) (qcl (applyEvent e h)) \<le>
     resilversInFlight (key h) (qcl h) + (if e = Established then 1 else 0)"
  by (cases e)
    (simp_all add: applyEvent_def notifyConnectionEstablished_def notifyConnectionLost_def
      processIncoming_def get_def getCurrentVersion_def Let_def resilversInFlight_def length_filter_tl)

lemma applyEvent_in_flight_eq:
  "(case e of Answer rr \<Rightarrow> False | _ \<Rightarrow> True) \<Longrightarrow>
   resilversInFlight (key h) (qcl (applyEvent e h)) =
     resilversInFlight (key h) (qcl h) + (if e = Established then 1 else 0)"
  by (cases e)
    (simp_all add: applyEvent_def notifyConnectionEstablished_def notifyConnectionLost_def
      processIncoming_def get_def getCurrentVersion_def Let_def resilversInFlight_def)

lemma applyEvents_in_flight:
  "resilversInFlight (key h) (qcl (applyEvents events h)) \<le>
     resilversInFlight (key h) (qcl h) + establishedCount events"
proof (induction events arbitrary: h)
  case Nil
  show ?case by (simp add: establishedCount_def)
next
  case (Cons e rest)
  from Cons.IH [of "applyEvent e h"] applyEvent_in_flight [of h e]
  show ?case by (simp add: establishedCount_def split: if_splits)
qed

lemma applyEvents_in_flight_eq:
  "answerFree events \<Longrightarrow>
   resilversInFlight (key h) (qcl (applyEvents events h)) =
     resilversInFlight (key h) (qcl h) + establishedCount events"
proof (induction events arbitrary: h)
  case Nil
  show ?case by (simp add: establishedCount_def)
next
  case (Cons e rest)
  then have a: "(case e of Answer rr \<Rightarrow> False | _ \<Rightarrow> True)" and b: "answerFree rest"
    by (simp_all add: answerFree_def)
  from Cons.IH [OF b, of "applyEvent e h"] applyEvent_in_flight_eq [OF a, of h]
  show ?case by (simp add: establishedCount_def split: if_splits)
qed

lemma checkFuture_tracks: "tracksLatest h \<Longrightarrow> tracksLatest (checkFuture h)"
  using checkFuture_future [of h]
  by (auto simp: tracksLatest_def split: option.splits)

lemma applyEvent_tracks: "tracksLatest h \<Longrightarrow> tracksLatest (applyEvent e h)"
proof (cases e)
  case Established
  have "tracksLatest (triggerResilvering h)" by (simp add: tracksLatest_def)
  then show ?thesis
    by (simp add: Established applyEvent_def notifyConnectionEstablished_def checkFuture_tracks)
next
  case (Answer rr)
  assume "tracksLatest h"
  then show ?thesis
    by (simp add: Answer applyEvent_def tracksLatest_def split: option.splits)
qed (simp_all add: applyEvent_def notifyConnectionLost_def processIncoming_def get_def
    getCurrentVersion_def Let_def checkFuture_tracks)

lemma applyEvents_tracks: "tracksLatest h \<Longrightarrow> tracksLatest (applyEvents events h)"
  by (induction events arbitrary: h) (simp_all add: applyEvent_tracks)

lemma SharedHash_new_fields:
  "key (SharedHash_new lg q k) = k"
  "resilversInFlight k (qcl (SharedHash_new lg q k)) = resilversInFlight k q + 1"
  "tracksLatest (SharedHash_new lg q k)"
  by (simp_all add: SharedHash_new_def resilversInFlight_def tracksLatest_def)

section \<open>The claims\<close>

subsection \<open>C1: feeding a revision\<close>

text \<open>
  C1 says that \<^verbatim>\<open>feedRevision\<close> applies every revision that is the successor of the
  current version. The gap test computes \<open>currentVersion + 2\<close> in 64 bits. A hash
  resilvered to version \<open>2^64 - 2\<close> (a resilvering reply may carry any 64-bit
  revision) is then fed revision \<open>2^64 - 1\<close>, which is its successor and does not
  wrap: the sum wraps to zero, the feed is taken for a gap and rejected, with a warning
  that the hash went out of date, and neither version nor contents change.
\<close>

theorem feedRevision_rejects_successor_below_wraparound:
  "(18446744073709551615 :: 64 word) = 18446744073709551614 + 1
   \<and> unat (18446744073709551614 :: 64 word) + 1 < 2 ^ 64
   \<and> feedRevision 18446744073709551615 updates (resilver 18446744073709551614 c h) =
       Inr (False,
         (resilver 18446744073709551614 c h)
           \<lparr>logger := logger (resilver 18446744073709551614 c h) @
              [(kWarn, WentOutOfDate (key h) 18446744073709551615 18446744073709551614)]\<rparr>)"
  by (simp add: feedRevision_def resilver_def)

subsection \<open>C2: the version along a run\<close>

text \<open>
  C2 says that along any interleaving of \<^verbatim>\<open>feedRevision\<close> and \<^verbatim>\<open>resilver\<close> the
  observed version never decreases. \<^verbatim>\<open>resilver\<close> stores the revision it is given
  whatever the current version is: a hash at version 8 resilvered with revision 5 is at
  version 5.
\<close>

theorem resilver_lowers_version:
  "\<not> sorted (observedVersions (hashAt 8 ''2'') [Resilver 5 Map.empty])"
  by (simp add: hashAt_def applyInput_def resilver_def)

text \<open>
  C2, amended: along any interleaving of \<^verbatim>\<open>feedRevision\<close> and \<^verbatim>\<open>resilver\<close> in which
  no resilver carries a revision below the version it replaces, the observed version
  never decreases. (A feed never lowers the version.)
\<close>

theorem version_never_decreases:
  "resilversForward h inputs \<Longrightarrow> sorted (observedVersions h inputs)"
proof (induction inputs arbitrary: h)
  case Nil
  show ?case by simp
next
  case (Cons i rest)
  then have step: "currentVersion h \<le> currentVersion (applyInput i h)"
    and tl: "sorted (observedVersions (applyInput i h) rest)"
    by (simp_all add: applyInput_mono)
  have "\<forall>x \<in> set (observedVersions (applyInput i h) rest).
          currentVersion (applyInput i h) \<le> x"
    using tl hd_observedVersions [of "applyInput i h" rest]
      observedVersions_not_Nil [of "applyInput i h" rest]
    by (metis list.collapse order_refl set_ConsD sorted_simps(2))
  with step tl show ?case by auto
qed

text \<open>
  The run of the specification's fourth scenario: version 7, revision 8 applied,
  revision 10 rejected as a gap, resilver to revision 11.
\<close>

theorem version_never_decreases_witness:
  "resilversForward (hashAt 7 ''1'')
     [FeedRevision 8 [(''a'', ''2'')], FeedRevision 10 [(''b'', ''3'')],
      Resilver 11 [''a'' \<mapsto> ''2'', ''b'' \<mapsto> ''3'', ''c'' \<mapsto> ''4'']]
   \<and> observedVersions (hashAt 7 ''1'')
     [FeedRevision 8 [(''a'', ''2'')], FeedRevision 10 [(''b'', ''3'')],
      Resilver 11 [''a'' \<mapsto> ''2'', ''b'' \<mapsto> ''3'', ''c'' \<mapsto> ''4'']] = [7, 8, 8, 11]
   \<and> sorted (observedVersions (hashAt 7 ''1'')
     [FeedRevision 8 [(''a'', ''2'')], FeedRevision 10 [(''b'', ''3'')],
      Resilver 11 [''a'' \<mapsto> ''2'', ''b'' \<mapsto> ''3'', ''c'' \<mapsto> ''4'']])"
proof -
  have r: "resilversForward (hashAt 7 ''1'')
     [FeedRevision 8 [(''a'', ''2'')], FeedRevision 10 [(''b'', ''3'')],
      Resilver 11 [''a'' \<mapsto> ''2'', ''b'' \<mapsto> ''3'', ''c'' \<mapsto> ''4'']]"
    by (simp add: hashAt_def applyInput_def feedRevision_def resilver_def
        feedSingleKeyValue_def)
  have v: "observedVersions (hashAt 7 ''1'')
     [FeedRevision 8 [(''a'', ''2'')], FeedRevision 10 [(''b'', ''3'')],
      Resilver 11 [''a'' \<mapsto> ''2'', ''b'' \<mapsto> ''3'', ''c'' \<mapsto> ''4'']] = [7, 8, 8, 11]"
    by (simp add: hashAt_def applyInput_def feedRevision_def resilver_def
        feedSingleKeyValue_def)
  from r v version_never_decreases [OF r] show ?thesis by simp
qed

subsection \<open>C6: the reply to a resilvering request\<close>

text \<open>
  C6: when the reply is a two-element array of an integer revision and an array of an
  even number of strings, \<^verbatim>\<open>handleResponse\<close> replaces the contents by the decoded
  field-value map and sets the version to the revision; for every other reply, the null
  reply and the nil reply among them, it logs a warning and leaves contents and version
  as they were.
\<close>

theorem handleResponse_resilvers_or_warns:
  "(even (length xs) \<and> list_all isString xs \<longrightarrow>
      contents (handleResponse (Some (ReplyArray [ReplyInteger revision, ReplyArray xs])) h) =
        decodedMap xs
    \<and> currentVersion
        (handleResponse (Some (ReplyArray [ReplyInteger revision, ReplyArray xs])) h) =
        revision)
   \<and> (\<not> snapshotShaped reply \<longrightarrow>
      contents (handleResponse reply h) = contents h
    \<and> currentVersion (handleResponse reply h) = currentVersion h
    \<and> logger (handleResponse reply h) = logger h @ [(kWarn, CouldNotParse reply)])"
  by (simp add: handleResponse_shaped handleResponse_unshaped resilver_def parseError_def)

theorem handleResponse_resilvers_or_warns_witness:
  "contents (handleResponse (Some (ReplyArray [ReplyInteger 11,
       ReplyArray [ReplyString ''a'', ReplyString ''2'', ReplyString ''b'', ReplyString ''3'']]))
     (hashAt 8 ''1'')) ''b'' = Some ''3''
   \<and> currentVersion (handleResponse (Some (ReplyArray [ReplyInteger 11,
       ReplyArray [ReplyString ''a'', ReplyString ''2'', ReplyString ''b'', ReplyString ''3'']]))
     (hashAt 8 ''1'')) = 11
   \<and> contents (handleResponse (Some ReplyNil) (hashAt 8 ''1'')) ''a'' = Some ''1''
   \<and> currentVersion (handleResponse (Some ReplyNil) (hashAt 8 ''1'')) = 8
   \<and> logger (handleResponse (Some ReplyNil) (hashAt 8 ''1'')) =
       [(kWarn, CouldNotParse (Some ReplyNil))]"
  using handleResponse_resilvers_or_warns
    [of "[ReplyString ''a'', ReplyString ''2'', ReplyString ''b'', ReplyString ''3'']"
      11 "hashAt 8 ''1''" "Some ReplyNil"]
  by (simp add: isString_def snapshotShaped_def decodedMap_def hashAt_def)

subsection \<open>C7: the pairs of a successor revision\<close>

text \<open>
  C7 says that whenever the fed revision is the successor of the current version, every
  pair of the update list is applied, an empty value removing its field. The gap test
  of \<^verbatim>\<open>feedRevision\<close> computes \<open>currentVersion + 2\<close> in 64 bits: a hash
  resilvered to version \<open>2^64 - 2\<close> and holding \<^verbatim>\<open>a\<close> is fed its successor
  revision \<open>2^64 - 1\<close> with the pair that deletes \<^verbatim>\<open>a\<close>; the sum wraps to zero,
  the feed is rejected as a gap, the pair is not applied and \<^verbatim>\<open>a\<close> keeps its value.
\<close>

theorem feedRevision_skips_pairs_below_wraparound:
  "(18446744073709551615 :: 64 word) =
     currentVersion (resilver 18446744073709551614 [''a'' \<mapsto> ''2''] h) + 1
   \<and> unat (currentVersion (resilver 18446744073709551614 [''a'' \<mapsto> ''2''] h)) + 1 < 2 ^ 64
   \<and> \<not> isl (feedRevision 18446744073709551615 [(''a'', [])]
        (resilver 18446744073709551614 [''a'' \<mapsto> ''2''] h))
   \<and> \<not> fst (projr (feedRevision 18446744073709551615 [(''a'', [])]
        (resilver 18446744073709551614 [''a'' \<mapsto> ''2''] h)))
   \<and> contents (snd (projr (feedRevision 18446744073709551615 [(''a'', [])]
        (resilver 18446744073709551614 [''a'' \<mapsto> ''2''] h)))) ''a'' = Some ''2''
   \<and> currentVersion (snd (projr (feedRevision 18446744073709551615 [(''a'', [])]
        (resilver 18446744073709551614 [''a'' \<mapsto> ''2''] h)))) = 18446744073709551614"
  by (simp add: feedRevision_def resilver_def)

subsection \<open>C10: deleting is setting the empty value\<close>

text \<open>
  C10: \<^verbatim>\<open>del\<close> of a field is \<^verbatim>\<open>set\<close> of the field to the empty string; both stage
  one MULTI bundle holding a single VHDEL of the field; and \<^verbatim>\<open>set\<close> of a batch stages
  one MULTI bundle with a VHDEL for every pair whose value is empty and a VHSET for
  every other pair, in the order of the batch.
\<close>

theorem del_is_set_empty:
  "del field h = set_field field [] h
   \<and> pending (writerThread (qcl (del field h))) =
       pending (writerThread (qcl h)) @
         [(nextFuture (writerThread (qcl h)), [[''MULTI''], [''VHDEL'', field], [''EXEC'']])]
   \<and> pending (writerThread (qcl (set_batch batch h))) =
       pending (writerThread (qcl h)) @
         [(nextFuture (writerThread (qcl h)),
           [[''MULTI'']] @ batchCommands batch @ [[''EXEC'']])]"
  by (simp add: del_def set_field_def set_batch_def set_loop_append executeMulti_def stage_def
      batchCommands_def emplace_back_def)

subsection \<open>C9: the endpoint of a connection attempt\<close>

text \<open>
  C9: a connection attempt on a client whose member index is in range targets
  \<open>members[nextMember]\<close> and advances \<open>nextMember\<close> by one modulo the member
  count; a pending redirect endpoint, when set, is the target instead, for this attempt
  only: it is cleared, and the attempt after it targets the member \<open>nextMember\<close> then
  points to; in either case an entry of the intercept table for the selected endpoint
  replaces it by the mapped endpoint. (The default-constructed endpoint counts as not
  set.)
\<close>

theorem connect_selects_endpoint:
  assumes "nextMember q < length (members q)" and "isEmpty Endpoint_default"
  shows "\<exists>q'. connect isEmpty ok q = Inr q'
     \<and> targetEndpoint q' = intercepted (intercepts q) (selectedEndpoint isEmpty q)
     \<and> nextMember q' = (nextMember q + 1) mod length (members q)
     \<and> redirectedEndpoint q' = Endpoint_default
     \<and> (\<exists>q''. connect isEmpty ok' q' = Inr q''
          \<and> targetEndpoint q'' = intercepted (intercepts q) (members q ! nextMember q'))"
proof -
  from connect_fields [OF assms(1), of isEmpty ok] obtain q' where
    c: "connect isEmpty ok q = Inr q'"
    and t: "targetEndpoint q' = intercepted (intercepts q) (selectedEndpoint isEmpty q)"
    and n: "nextMember q' = (nextMember q + 1) mod length (members q)"
    and r: "redirectedEndpoint q' = Endpoint_default"
    and m: "members q' = members q" and i: "intercepts q' = intercepts q"
    by blast
  from assms(1) have "members q \<noteq> []" by auto
  with n m have lt: "nextMember q' < length (members q')" by simp
  from connect_fields [OF lt, of isEmpty ok'] obtain q'' where
    c2: "connect isEmpty ok' q' = Inr q''"
    and t2: "targetEndpoint q'' = intercepted (intercepts q') (selectedEndpoint isEmpty q')"
    by blast
  from r assms(2) have "selectedEndpoint isEmpty q' = members q ! nextMember q'"
    by (simp add: selectedEndpoint_def m)
  with c t n r c2 t2 i show ?thesis by simp
qed

text \<open>
  A redirect to C:7777 is pending and C:7777 is intercepted: the attempt goes to
  localhost:1234, the index moves from A to B, and the next attempt goes to B.
\<close>

theorem connect_selects_endpoint_witness:
  "nextMember clientMoved < length (members clientMoved) \<and> emptySpec Endpoint_default
   \<and> \<not> isl (connect emptySpec True clientMoved)
   \<and> targetEndpoint (projr (connect emptySpec True clientMoved)) =
       \<lparr>host = ''localhost'', port = 1234\<rparr>
   \<and> nextMember (projr (connect emptySpec True clientMoved)) = 1
   \<and> redirectedEndpoint (projr (connect emptySpec True clientMoved)) = Endpoint_default
   \<and> targetEndpoint
       (projr (connect emptySpec True (projr (connect emptySpec True clientMoved)))) =
       \<lparr>host = ''B'', port = 6380\<rparr>"
proof -
  have a: "nextMember clientMoved < length (members clientMoved)"
    by (simp add: clientMoved_def clientAB_def addIntercept_def)
  have b: "emptySpec Endpoint_default"
    by (simp add: emptySpec_def Endpoint_default_def)
  from connect_selects_endpoint [of clientMoved emptySpec True True] a b show ?thesis
    by (auto simp: clientMoved_def clientAB_def addIntercept_def intercepted_def
        selectedEndpoint_def emptySpec_def Endpoint_default_def)
qed

subsection \<open>C3: a MOVED reply\<close>

text \<open>
  C3 says that with transparent redirects enabled an error reply whose text starts with
  \<^verbatim>\<open>MOVED \<close> is never delivered. \<^verbatim>\<open>feed\<close> follows the redirect only when the text
  splits into exactly three tokens of which the third parses as a server: the error
  \<^verbatim>\<open>MOVED 5\<close> resolves the pending \<^verbatim>\<open>GET x\<close>, no redirect is stored and \<^verbatim>\<open>feed\<close>
  returns true.
\<close>

theorem malformed_moved_is_delivered:
  "transparentRedirects clientGet
   \<and> pending (writerThread clientGet) = [(0, [[''GET'', ''x'']])]
   \<and> fst (projr (feed splitSpec parseServerSpec clientGet [Reply (ReplyError ''MOVED 5'')]))
   \<and> resolved (writerThread (snd (projr
        (feed splitSpec parseServerSpec clientGet [Reply (ReplyError ''MOVED 5'')])))) =
       [(0, Some (ReplyError ''MOVED 5''))]
   \<and> redirectedEndpoint (snd (projr
        (feed splitSpec parseServerSpec clientGet [Reply (ReplyError ''MOVED 5'')]))) =
       Endpoint_default"
  by (simp add: clientGet_def clientAB_def execute_def stage_def WriterThread_new_def
      checkHandshake_def isRedirect_def splitSpec_def satisfy_def Let_def feed.simps)

text \<open>
  C3, amended: with transparent redirects enabled, for an error reply whose text starts
  with \<^verbatim>\<open>MOVED \<close> and which passes the handshake gate: when the text splits at spaces
  into exactly three tokens and the third parses as a server, the reply is not handed to
  the stager (nor is any reply after it), the parsed endpoint is stored as the pending
  redirect and \<^verbatim>\<open>feed\<close> returns false, on which the event loop tears the connection
  down and reconnects; otherwise the reply is handed to the stager like any other.
\<close>

theorem moved_redirects_when_well_formed:
  assumes "transparentRedirects q" and "take 6 str = ''MOVED ''"
    and "passesHandshake q (ReplyError str)"
  shows "feed split parseServer q (Reply (ReplyError str) # rest) =
     (if length (split str '' '') = 3 \<and> parseServer (split str '' '' ! 2) \<noteq> None then
        Inr (False,
          q\<lparr>handshakePending := False,
            redirectedEndpoint :=
              \<lparr>host = fst (the (parseServer (split str '' '' ! 2))),
               port = snd (the (parseServer (split str '' '' ! 2)))\<rparr>\<rparr>)
      else
        feed split parseServer
          (q\<lparr>handshakePending := False,
            writerThread := satisfy (ReplyError str) (writerThread q)\<rparr>) rest)"
  using assms
  by (auto simp: feed.simps checkHandshake_passes isRedirect_def Let_def split: option.splits)

text \<open>The specification's second scenario: \<^verbatim>\<open>MOVED 5 B:6380\<close> in answer to \<^verbatim>\<open>GET x\<close>.\<close>

theorem moved_redirects_when_well_formed_witness:
  "transparentRedirects clientGet \<and> take 6 ''MOVED 5 B:6380'' = ''MOVED ''
   \<and> passesHandshake clientGet (ReplyError ''MOVED 5 B:6380'')
   \<and> feed splitSpec parseServerSpec clientGet
        [Reply (ReplyError ''MOVED 5 B:6380''), Reply (ReplyStatus ''OK'')] =
      Inr (False,
        clientGet\<lparr>handshakePending := False,
          redirectedEndpoint := \<lparr>host = ''B'', port = 6380\<rparr>\<rparr>)"
proof -
  have a: "transparentRedirects clientGet"
    by (simp add: clientGet_def clientAB_def)
  have b: "take 6 ''MOVED 5 B:6380'' = ''MOVED ''" by simp
  have c: "passesHandshake clientGet (ReplyError ''MOVED 5 B:6380'')"
    by (simp add: passesHandshake_def clientGet_def clientAB_def)
  have s: "splitSpec ''MOVED 5 B:6380'' '' '' = [''MOVED'', ''5'', ''B:6380'']"
    by (simp add: splitSpec_def)
  have p: "parseServerSpec ''B:6380'' = Some (''B'', 6380)"
    by (simp add: parseServerSpec_def digitValue_def)
  from moved_redirects_when_well_formed
    [OF a b c, of splitSpec parseServerSpec "[Reply (ReplyStatus ''OK'')]"] a b c s p
  show ?thesis by simp
qed

subsection \<open>C4: clearing the pending requests\<close>

text \<open>
  C4 says that \<^verbatim>\<open>clearPending\<close> runs on permanent shutdown only, never in a reconnect
  cycle. \<^verbatim>\<open>connect\<close> starts with \<^verbatim>\<open>cleanup\<close>, which ends with \<^verbatim>\<open>clearPending\<close>:
  when the event loop reconnects a client with \<^verbatim>\<open>GET x\<close> pending, the request is
  resolved with nil.
\<close>

theorem reconnect_clears_pending:
  "pending (writerThread clientGet) = [(0, [[''GET'', ''x'']])]
   \<and> \<not> isl (eventLoopReconnect emptySpec True 1 clientGet)
   \<and> fst (projr (eventLoopReconnect emptySpec True 1 clientGet)) = 2
   \<and> pending (writerThread (snd (projr (eventLoopReconnect emptySpec True 1 clientGet)))) = []
   \<and> resolved (writerThread (snd (projr (eventLoopReconnect emptySpec True 1 clientGet)))) =
       [(0, None)]"
  by (simp add: eventLoopReconnect_def connect_def cleanup_def processRedirection_def
      discoverIntercept_def connectTCP_def clientGet_def clientAB_def execute_def stage_def
      clearPending_def deactivate_def activate_def WriterThread_new_def emptySpec_def
      Endpoint_default_def Let_def)

text \<open>
  C4, amended: \<^verbatim>\<open>clearPending\<close> resolves every still-pending request with a nil reply
  and leaves nothing pending; it is the last step of \<^verbatim>\<open>cleanup\<close>, which the destructor
  runs and with which every connection attempt starts, so that the reconnect of the event
  loop resolves with nil whatever was pending and leaves pending at most the handshake
  request it stages itself.
\<close>

theorem cleanup_clears_pending:
  "pending (clearPending w) = []
   \<and> resolved (clearPending w) = resolved w @ map (\<lambda>p. (fst p, None)) (pending w)
   \<and> writerThread (cleanup q) = clearPending (deactivate (writerThread q))
   \<and> writerThread (QClient_destroy q) = clearPending (deactivate (writerThread q))
   \<and> (nextMember q < length (members q) \<longrightarrow>
        \<not> isl (eventLoopReconnect isEmpty ok backoff q)
      \<and> resolved (writerThread (snd (projr (eventLoopReconnect isEmpty ok backoff q)))) =
          resolved (writerThread q) @ map (\<lambda>p. (fst p, None)) (pending (writerThread q))
      \<and> pending (writerThread (snd (projr (eventLoopReconnect isEmpty ok backoff q)))) =
          (case handshake q of
             None \<Rightarrow> []
           | Some hs \<Rightarrow> [(nextFuture (writerThread q), [provideHandshake hs])]))"
proof -
  have "\<not> isl (eventLoopReconnect isEmpty ok backoff q)
      \<and> resolved (writerThread (snd (projr (eventLoopReconnect isEmpty ok backoff q)))) =
          resolved (writerThread q) @ map (\<lambda>p. (fst p, None)) (pending (writerThread q))
      \<and> pending (writerThread (snd (projr (eventLoopReconnect isEmpty ok backoff q)))) =
          (case handshake q of
             None \<Rightarrow> []
           | Some hs \<Rightarrow> [(nextFuture (writerThread q), [provideHandshake hs])])"
    if "nextMember q < length (members q)"
  proof -
    from connect_writer [OF that, of isEmpty ok] obtain q' where
      "connect isEmpty ok q = Inr q'"
      "resolved (writerThread q') =
         resolved (writerThread q) @ map (\<lambda>p. (fst p, None)) (pending (writerThread q))"
      "pending (writerThread q') =
         (case handshake q of
            None \<Rightarrow> []
          | Some hs \<Rightarrow> [(nextFuture (writerThread q), [provideHandshake hs])])"
      by blast
    then show ?thesis by (simp add: eventLoopReconnect_def)
  qed
  then show ?thesis
    by (simp add: QClient_destroy_def)
qed

theorem cleanup_clears_pending_witness:
  "nextMember clientGet < length (members clientGet)
   \<and> resolved (writerThread (snd (projr (eventLoopReconnect emptySpec False 2048 clientGet)))) =
       [(0, None)]
   \<and> pending (writerThread (snd (projr (eventLoopReconnect emptySpec False 2048 clientGet)))) = []
   \<and> resolved (writerThread (QClient_destroy clientGet)) = [(0, None)]"
proof -
  have a: "nextMember clientGet < length (members clientGet)"
    by (simp add: clientGet_def clientAB_def)
  have b: "pending (writerThread clientGet) = [(0, [[''GET'', ''x'']])]"
    "resolved (writerThread clientGet) = []" "handshake clientGet = None"
    by (simp_all add: clientGet_def clientAB_def WriterThread_new_def)
  from cleanup_clears_pending
    [of "deactivate (writerThread clientGet)" clientGet emptySpec False 2048] a b
  show ?thesis by simp
qed

subsection \<open>C5: the handshake\<close>

text \<open>
  C5 says that the reply to the handshake is consumed by the connection manager rather
  than delivered to the stager. \<^verbatim>\<open>feed\<close> validates the reply and, when the handshake
  accepts it, goes on to \<^verbatim>\<open>satisfy\<close> with it: on the client constructed with a
  handshake, the reply \<^verbatim>\<open>OK\<close> to \<^verbatim>\<open>AUTH\<close> is handed to the stager, where it resolves
  the head of the queue.
\<close>

theorem handshake_reply_reaches_stager:
  "handshakePending clientAuth
   \<and> pending (writerThread clientAuth) =
       [(0, [[''AUTH'', ''secret'']]), (1, [[''GET'', ''x'']])]
   \<and> fst (projr (feed splitSpec parseServerSpec clientAuth [Reply (ReplyStatus ''OK'')]))
   \<and> resolved (writerThread (snd (projr
        (feed splitSpec parseServerSpec clientAuth [Reply (ReplyStatus ''OK'')])))) =
       [(0, Some (ReplyStatus ''OK''))]"
  by (simp add: clientAuth_fields feed.simps checkHandshake_def isRedirect_def satisfy_def
      acceptOK_def)

text \<open>
  C5, amended: whenever a handshake is configured, a connection attempt stages the
  handshake request right after clearing the queue, so that it stands in the queue before
  every user request staged on that connection; while the handshake is pending, a reply
  the handshake rejects makes \<^verbatim>\<open>feed\<close> return false (the connection is dropped) with
  nothing handed to the stager, and a reply it accepts (and that is no redirect) ends the
  handshake and is then handed to the stager like any reply, where it resolves the
  request at the head of the queue, the staged handshake request.
\<close>

theorem handshake_first_then_gate:
  "(handshake q = Some hs \<and> nextMember q < length (members q) \<longrightarrow>
      \<not> isl (connect isEmpty ok q)
    \<and> handshakePending (projr (connect isEmpty ok q))
    \<and> pending (writerThread (projr (connect isEmpty ok q))) =
        [(nextFuture (writerThread q), [provideHandshake hs])]
    \<and> pending (writerThread (snd (execute cmd (projr (connect isEmpty ok q))))) =
        [(nextFuture (writerThread q), [provideHandshake hs]),
         (Suc (nextFuture (writerThread q)), [cmd])])
   \<and> (handshake q1 = Some hs \<and> handshakePending q1 \<and> \<not> validateResponse hs rr \<longrightarrow>
      feed split parseServer q1 (Reply rr # rest) = Inr (False, q1))
   \<and> (handshake q1 = Some hs \<and> handshakePending q1 \<and> validateResponse hs rr'
      \<and> isRedirect split parseServer q1 rr' = None
      \<and> pending (writerThread q1) = (f, req) # users \<longrightarrow>
      feed split parseServer q1 (Reply rr' # rest) =
        feed split parseServer
          (q1\<lparr>handshakePending := False,
             writerThread := (writerThread q1)
               \<lparr>pending := users, resolved := resolved (writerThread q1) @ [(f, Some rr')]\<rparr>\<rparr>)
          rest)"
proof -
  have "\<not> isl (connect isEmpty ok q)
    \<and> handshakePending (projr (connect isEmpty ok q))
    \<and> pending (writerThread (projr (connect isEmpty ok q))) =
        [(nextFuture (writerThread q), [provideHandshake hs])]
    \<and> pending (writerThread (snd (execute cmd (projr (connect isEmpty ok q))))) =
        [(nextFuture (writerThread q), [provideHandshake hs]),
         (Suc (nextFuture (writerThread q)), [cmd])]"
    if "handshake q = Some hs" and "nextMember q < length (members q)"
  proof -
    from connect_handshake [OF that(2) that(1), of isEmpty ok] obtain q' where
      "connect isEmpty ok q = Inr q'" "handshakePending q'"
      "pending (writerThread q') = [(nextFuture (writerThread q), [provideHandshake hs])]"
      "nextFuture (writerThread q') = Suc (nextFuture (writerThread q))"
      by blast
    then show ?thesis by simp
  qed
  then show ?thesis
    by (simp add: feed_handshake_rejects feed_handshake_accepts)
qed

theorem handshake_first_then_gate_witness:
  "pending (writerThread (snd (execute [''GET'', ''x'']
      (projr (connect emptySpec True (clientAB\<lparr>handshake := Some acceptOK\<rparr>))))))
     = [(0, [[''AUTH'', ''secret'']]), (1, [[''GET'', ''x'']])]
   \<and> feed splitSpec parseServerSpec clientAuth [Reply (ReplyError ''ERR denied'')] =
       Inr (False, clientAuth)
   \<and> feed splitSpec parseServerSpec clientAuth [Reply (ReplyStatus ''OK'')] =
       Inr (True, clientAuth\<lparr>handshakePending := False,
         writerThread := (writerThread clientAuth)
           \<lparr>pending := [(1, [[''GET'', ''x'']])],
             resolved := [(0, Some (ReplyStatus ''OK''))]\<rparr>\<rparr>)"
  using handshake_first_then_gate [of "clientAB\<lparr>handshake := Some acceptOK\<rparr>" acceptOK emptySpec True
      "[''GET'', ''x'']" clientAuth "ReplyError ''ERR denied''" splitSpec parseServerSpec "[]"
      "ReplyStatus ''OK''" 0 "[[''AUTH'', ''secret'']]" "[(1, [[''GET'', ''x'']])]"]
  by (simp add: clientAuth_fields isRedirect_def feed.simps)
    (simp add: clientAB_def acceptOK_def WriterThread_new_def)

subsection \<open>C8: resilvering requests in flight\<close>

text \<open>
  C8 says that at most one resilvering request is in flight at any time.
  \<^verbatim>\<open>triggerResilvering\<close> stages a VHGETALL whether or not an earlier one is still
  unanswered: after the construction of a hash and one connection-established
  notification, with no reply from the server yet, two are pending.
\<close>

theorem two_resilvers_in_flight:
  "resilversInFlight ''K'' (qcl (applyEvents [Established] (SharedHash_new [] clientAB ''K''))) = 2"
  by (simp add: applyEvent_def notifyConnectionEstablished_def resilversInFlight_def
      SharedHash_new_def clientAB_def WriterThread_new_def)

text \<open>
  C8, amended: the hash waits for the reply of at most one resilvering request, the one
  staged last; the constructor and every connection-established notification stage a
  new VHGETALL without regard to earlier ones, and nothing else in the life of the hash
  does, so that the number of these requests in flight is at most one more than the number
  of connection-established notifications (on top of what was in flight at construction),
  and exactly that as long as no reply arrives.
\<close>

theorem resilvers_in_flight_bound:
  "resilversInFlight k (qcl (applyEvents events (SharedHash_new lg q k))) \<le>
     resilversInFlight k q + 1 + establishedCount events
   \<and> (answerFree events \<longrightarrow>
        resilversInFlight k (qcl (applyEvents events (SharedHash_new lg q k))) =
          resilversInFlight k q + 1 + establishedCount events)
   \<and> tracksLatest (applyEvents events (SharedHash_new lg q k))"
  using applyEvents_in_flight [of "SharedHash_new lg q k" events]
    applyEvents_in_flight_eq [of events "SharedHash_new lg q k"]
    applyEvents_tracks [of "SharedHash_new lg q k" events]
  by (simp add: SharedHash_new_fields)

theorem resilvers_in_flight_bound_witness:
  "answerFree [Established, Incoming, Read ''a'']
   \<and> resilversInFlight ''K''
       (qcl (applyEvents [Established, Incoming, Read ''a''] (SharedHash_new [] clientAB ''K''))) = 2
   \<and> tracksLatest (applyEvents [Established, Incoming, Read ''a''] (SharedHash_new [] clientAB ''K''))"
  using resilvers_in_flight_bound [of "''K''" "[Established, Incoming, Read ''a'']" "[]" clientAB]
  by (simp add: answerFree_def establishedCount_def resilversInFlight_def clientAB_def
      WriterThread_new_def)

section \<open>Further properties of feedRevision\<close>

text \<open>
  X1: away from the wrap-around, \<^verbatim>\<open>feedRevision\<close> follows its policy. When the
  version plus two does not exceed 64 bits, the successor of the version is accepted,
  its pairs applied and the version set to it; a revision at most the version, or at
  least the version plus two, is rejected, and contents and version stay as they were.
\<close>

theorem feedRevision_policy:
  "(unat (currentVersion h) + 2 < 2 ^ 64 \<and> revision = currentVersion h + 1 \<longrightarrow>
      feedRevision revision updates h =
        Inr (True, (feedUpdates updates h)\<lparr>currentVersion := revision\<rparr>))
   \<and> (revision \<le> currentVersion h \<or> unat (currentVersion h) + 2 \<le> unat revision \<longrightarrow>
      \<not> isl (feedRevision revision updates h)
    \<and> \<not> fst (projr (feedRevision revision updates h))
    \<and> contents (snd (projr (feedRevision revision updates h))) = contents h
    \<and> currentVersion (snd (projr (feedRevision revision updates h))) = currentVersion h)"
  using gap_as_words [of "currentVersion h" revision]
  by (auto simp: feedRevision_cases successor_as_words)

theorem feedRevision_policy_witness:
  "feedRevision 8 [(''a'', ''2'')] (hashAt 7 ''1'') =
     Inr (True, (feedUpdates [(''a'', ''2'')] (hashAt 7 ''1''))\<lparr>currentVersion := 8\<rparr>)
   \<and> \<not> fst (projr (feedRevision 10 [(''b'', ''3'')] (hashAt 8 ''2'')))
   \<and> contents (snd (projr (feedRevision 10 [(''b'', ''3'')] (hashAt 8 ''2'')))) ''b'' = None
   \<and> currentVersion (snd (projr (feedRevision 10 [(''b'', ''3'')] (hashAt 8 ''2'')))) = 8"
  using feedRevision_policy [of "hashAt 7 ''1''" 8 "[(''a'', ''2'')]"]
    feedRevision_policy [of "hashAt 8 ''2''" 10 "[(''b'', ''3'')]"]
  by (simp add: hashAt_def)

text \<open>
  X2: the assertion \<^verbatim>\<open>revision == currentVersion+1\<close> of \<^verbatim>\<open>feedRevision\<close> holds
  whenever it is reached, wrap-around included: the function always returns.
\<close>

theorem feedRevision_assertion_holds:
  "feedRevision revision updates h \<noteq> Inl AssertionFailed \<and> \<not> isl (feedRevision revision updates h)"
  by (simp add: feedRevision_cases)

text \<open>
  X3: whenever \<^verbatim>\<open>feedRevision\<close> accepts a revision (it returns true), its pairs have
  been applied in order, an empty value removing the field and any other value being
  stored: afterwards a field the update list does not mention is as before, a field
  whose last pair has the empty value is absent, and any other field holds the value of
  its last pair.
\<close>

theorem feedRevision_applies_pairs:
  assumes "feedRevision revision updates h = Inr (True, h')"
  shows "contents h' field =
     (case lastUpdate updates field of
        None \<Rightarrow> contents h field
      | Some v \<Rightarrow> if v = [] then None else Some v)"
  using assms
  by (auto simp: feedRevision_cases feedUpdates_contents split: if_splits)

text \<open>The specification's fifth scenario: version 8 holding \<^verbatim>\<open>a\<close>, revision 9 deletes it.\<close>

theorem feedRevision_applies_pairs_witness:
  "feedRevision 9 [(''a'', [])] (hashAt 8 ''2'') =
     Inr (True, (hashAt 8 ''2'')\<lparr>currentVersion := 9, contents := Map.empty\<rparr>)
   \<and> contents ((hashAt 8 ''2'')\<lparr>currentVersion := 9, contents := Map.empty\<rparr>) ''a'' = None"
proof -
  have e: "feedRevision 9 [(''a'', [])] (hashAt 8 ''2'') =
     Inr (True, (hashAt 8 ''2'')\<lparr>currentVersion := 9, contents := Map.empty\<rparr>)"
    by (simp add: feedRevision_def feedSingleKeyValue_def hashAt_def)
  from e feedRevision_applies_pairs [OF e, of "''a''"] show ?thesis
    by (simp add: lastUpdate_def)
qed

end
